theory Spec2Isabelle
  imports Main "HOL-Library.Char_ord" "HOL-Library.List_Lexorder" "HOL-Library.Sublist"
begin

section \<open>Values, exceptions and the backing store\<close>

text \<open>
  The harness of \<^verbatim>\<open>compare_versions.py\<close> runs a closure against a RedisDict instance,
  records what it returned or raised and what the instance reports as its contents, checks
  that report against the raw keys of the Redis database, and clears the test keys.

  Python values that a closure returns or stores. \<open>PNone\<close> is Python's \<^verbatim>\<open>None\<close>, which is
  also what a closure without a return statement yields.
\<close>

datatype pyval = PNone | PBool bool | PInt int | PStr string | PList "pyval list"

text \<open>
  An exception object as \<^verbatim>\<open>run_closure\<close> sees it: its class name, whether it is an instance
  of \<^verbatim>\<open>Exception\<close> (what \<^verbatim>\<open>except Exception as e\<close> tests), its \<^verbatim>\<open>message\<close> attribute
  (\<open>None\<close> when the object has no such attribute) and the identity of the object.
\<close>

record exn =
  cls :: string
  is_Exception :: bool
  message :: "pyval option"
  obj_id :: nat

text \<open>
  The Redis database: an association list from key names to values; the first binding of a
  key is the live one and \<open>db_keys\<close> lists every key once.
\<close>

type_synonym store = "(string \<times> pyval) list"

definition db_keys :: "store \<Rightarrow> string list" where
  "db_keys s = remdups (map fst s)"

definition delete :: "string \<Rightarrow> store \<Rightarrow> store" where
  "delete k s = filter (\<lambda>kv. fst kv \<noteq> k) s"

subsection \<open>Glob patterns of \<^verbatim>\<open>scan_iter\<close>\<close>

text \<open>
  \<^verbatim>\<open>scan_iter(pattern)\<close> yields the keys that match a glob-style pattern: \<^verbatim>\<open>*\<close> stands for
  any run of characters, \<^verbatim>\<open>?\<close> for one character, \<^verbatim>\<open>[...]\<close> for one character of a class
  (members, ranges \<^verbatim>\<open>a-z\<close>, a leading \<^verbatim>\<open>^\<close> negates), a backslash makes the next character
  literal. \<open>class_match ps c m\<close> reads a class body and returns whether \<open>c\<close> is in it together
  with the pattern left after the closing bracket.
\<close>

fun class_match :: "string \<Rightarrow> char \<Rightarrow> bool \<Rightarrow> bool \<times> string" where
  "class_match [] c m = (m, [])"
| "class_match [p] c m = (if p = CHR '']'' then (m, []) else (m \<or> p = c, []))"
| "class_match (p # q # r) c m =
     (if p = CHR 0x5C then class_match r c (m \<or> q = c)
      else if p = CHR '']'' then (m, q # r)
      else if q = CHR ''-'' \<and> r \<noteq> [] then
        class_match (tl r) c (m \<or> (min p (hd r) \<le> c \<and> c \<le> max p (hd r)))
      else class_match (q # r) c (m \<or> p = c))"

lemma class_match_length: "length (snd (class_match ps c m)) \<le> length ps"
proof (induction ps c m rule: class_match.induct)
  case (1 c m)
  show ?case by simp
next
  case (2 p c m)
  show ?case by simp
next
  case (3 p q r c m)
  show ?case
  proof (cases "p = CHR 0x5C")
    case True
    with 3 show ?thesis by simp
  next
    case notbs: False
    show ?thesis
    proof (cases "p = CHR '']''")
      case True
      with notbs show ?thesis by simp
    next
      case notclose: False
      show ?thesis
      proof (cases "q = CHR ''-'' \<and> r \<noteq> []")
        case True
        with notbs notclose 3(2) have "length (snd (class_match (p # q # r) c m)) \<le> length (tl r)"
          by simp
        then show ?thesis by simp
      next
        case False
        with notbs notclose 3(3) have "length (snd (class_match (p # q # r) c m)) \<le> length (q # r)"
          by (simp del: class_match.simps(2) add: class_match.simps(3) [of p q r])
        then show ?thesis by simp
      qed
    qed
  qed
qed

function glob_match :: "string \<Rightarrow> string \<Rightarrow> bool" where
  "glob_match [] s = (s = [])"
| "glob_match (p # ps) [] = (p = CHR ''*'' \<and> glob_match ps [])"
| "glob_match (p # ps) (c # cs) =
     (if p = CHR ''*'' then glob_match ps (c # cs) \<or> glob_match (p # ps) cs
      else if p = CHR ''?'' then glob_match ps cs
      else if p = CHR ''['' then
        (let neg = (case ps of [] \<Rightarrow> False | q # _ \<Rightarrow> q = CHR ''^'');
             body = class_match (if neg then tl ps else ps) c False
         in (fst body \<noteq> neg) \<and> glob_match (snd body) cs)
      else if p = CHR 0x5C \<and> ps \<noteq> [] then hd ps = c \<and> glob_match (tl ps) cs
      else p = c \<and> glob_match ps cs)"
  by pat_completeness auto
termination
proof (relation "measure (\<lambda>(p, s). length p + length s)")
  show "wf (measure (\<lambda>(p, s). length p + length s))" by simp
next
  fix p ps c cs x xa
  assume "x = (case ps of [] \<Rightarrow> False | q # x \<Rightarrow> q = CHR ''^'')"
    and "xa = class_match (if x then tl ps else ps) c False"
  then have "length (snd xa) \<le> length (if x then tl ps else ps)"
    by (simp add: class_match_length)
  also have "\<dots> \<le> length ps" by simp
  finally show "((snd xa, cs), p # ps, c # cs) \<in> measure (\<lambda>(p, s). length p + length s)"
    by simp
qed auto

definition scan_iter :: "string \<Rightarrow> store \<Rightarrow> string list" where
  "scan_iter pattern s = filter (glob_match pattern) (db_keys s)"

text \<open>
  \<^verbatim>\<open>clear_test_namespace\<close>: the loop deletes every key that \<^verbatim>\<open>scan_iter('rd_compare_*')\<close>
  yields. The pipeline object of the \<^verbatim>\<open>with\<close> statement is never used: each delete goes to
  the connection directly.
\<close>

definition clear_test_namespace :: "store \<Rightarrow> store" where
  "clear_test_namespace s = fold delete (scan_iter ''rd_compare_*'' s) s"

definition tearDown :: "store \<Rightarrow> store" where
  "tearDown s = clear_test_namespace s"

section \<open>The instance under test\<close>

text \<open>
  RedisDict is imported from the package under test, so an instance is given by what the
  harness uses of it: its \<^verbatim>\<open>namespace\<close>, the attribute names for which \<^verbatim>\<open>hasattr\<close> holds, its
  \<^verbatim>\<open>to_dict()\<close> (a Python dict, here an association list read from the database), its
  item assignment \<^verbatim>\<open>rd[k] = v\<close> and its item lookup \<^verbatim>\<open>rd[k]\<close>, which may raise and may change
  the database.
\<close>

record redis_dict =
  namespace :: string
  attrs :: "string list"
  to_dict :: "store \<Rightarrow> (string \<times> pyval) list"
  setitem :: "string \<Rightarrow> pyval \<Rightarrow> store \<Rightarrow> exn option \<times> store"
  getitem :: "string \<Rightarrow> store \<Rightarrow> (exn + pyval) \<times> store"

definition hasattr :: "redis_dict \<Rightarrow> string \<Rightarrow> bool" where
  "hasattr rd func = (func \<in> set (attrs rd))"

text \<open>The keys of a Python dict, each once.\<close>

definition dict_keys :: "(string \<times> pyval) list \<Rightarrow> string list" where
  "dict_keys d = remdups (map fst d)"

text \<open>What calling a closure does: it returns a value or raises.\<close>

datatype call = Returned pyval | Raised exn

type_synonym closure = "redis_dict \<Rightarrow> store \<Rightarrow> call \<times> store"

section \<open>\<^verbatim>\<open>run_closure\<close>\<close>

text \<open>
  The dict that \<^verbatim>\<open>run_closure\<close> returns. \<open>exception\<close> is \<^verbatim>\<open>None\<close> or the dict
  \<^verbatim>\<open>{'object': e, 'message': e.message}\<close>.
\<close>

record outcome =
  result :: pyval
  exception :: "(exn \<times> pyval) option"
  state :: "(string \<times> pyval) list"

text \<open>
  What leaves a function by raising: the \<^verbatim>\<open>AssertionError\<close> of a failed \<^verbatim>\<open>assertEqual\<close>, the
  \<^verbatim>\<open>AttributeError\<close> of reading a missing attribute, \<^verbatim>\<open>SkipTest\<close> with the required
  function names, or an exception of the closure that \<^verbatim>\<open>except Exception\<close> does not catch.
\<close>

datatype error = AssertionError | AttributeError | SkipTest "string list" | Propagated exn

text \<open>
  The \<^verbatim>\<open>try\<close>/\<^verbatim>\<open>except\<close> part: the values of \<^verbatim>\<open>result\<close> and \<^verbatim>\<open>exc\<close> afterwards, or the
  exception that is pending when the \<^verbatim>\<open>finally\<close> block starts.
\<close>

definition capture :: "call \<Rightarrow> error + pyval \<times> (exn \<times> pyval) option" where
  "capture r =
     (case r of
        Returned v \<Rightarrow> Inr (v, None)
      | Raised e \<Rightarrow>
          if is_Exception e then
            (case message e of
               None \<Rightarrow> Inl AttributeError
             | Some m \<Rightarrow> Inr (PNone, Some (e, m)))
          else Inl (Propagated e))"

text \<open>\<^verbatim>\<open>s.split(sep)\<close> for a separator of one character; the result is never empty.\<close>

fun split :: "char \<Rightarrow> string \<Rightarrow> string list" where
  "split sep [] = [[]]"
| "split sep (x # xs) =
     (if x = sep then [] # split sep xs
      else (case split sep xs of [] \<Rightarrow> [[x]] | p # ps \<Rightarrow> (x # p) # ps))"

definition to_rm :: "redis_dict \<Rightarrow> nat" where
  "to_rm rd = length (hd (split CHR '':'' (namespace rd))) + 1"

definition raw_keys :: "redis_dict \<Rightarrow> store \<Rightarrow> string list" where
  "raw_keys rd s = map (drop (to_rm rd)) (scan_iter (namespace rd @ ''*'') s)"

text \<open>The sanity check \<^verbatim>\<open>assertEqual(sorted(raw_keys), sorted(redis_state.keys()))\<close>.\<close>

definition sanity_check :: "redis_dict \<Rightarrow> store \<Rightarrow> bool" where
  "sanity_check rd s = (sort (raw_keys rd s) = sort (dict_keys (to_dict rd s)))"

text \<open>
  \<^verbatim>\<open>run_closure\<close> returns its dict or raises, and leaves a database behind. An exception
  raised in the \<^verbatim>\<open>finally\<close> block replaces the pending one and skips the rest of the block;
  a pending exception is raised again when the block ends.
\<close>

definition run_closure :: "closure \<Rightarrow> redis_dict \<Rightarrow> store \<Rightarrow> (error + outcome) \<times> store" where
  "run_closure closure rd s0 =
     (let (r, s1) = closure rd s0;
          redis_state = to_dict rd s1
      in if \<not> sanity_check rd s1 then (Inl AssertionError, s1)
         else
           (let s2 = clear_test_namespace s1
            in case capture r of
                 Inl err \<Rightarrow> (Inl err, s2)
               | Inr (res, exc) \<Rightarrow>
                   (Inr \<lparr>result = res, exception = exc, state = redis_state\<rparr>, s2)))"

section \<open>Skipping tests: \<^verbatim>\<open>requireFunctions\<close>\<close>

text \<open>
  The test case object holds the two instances; the database connection is the store that
  every test takes and hands back. A test method returns nothing or raises.
\<close>

record testcase_self =
  d1 :: redis_dict
  d2 :: redis_dict

type_synonym test = "testcase_self \<Rightarrow> store \<Rightarrow> (error + unit) \<times> store"

text \<open>
  The wrapper built by the decorator: \<^verbatim>\<open>skipTest\<close> raises \<^verbatim>\<open>SkipTest\<close> when
  \<^verbatim>\<open>any([not hasattr(self.d1, func) for func in functions])\<close>, else the test case runs.
\<close>

definition requireFunctions :: "string list \<Rightarrow> test \<Rightarrow> test" where
  "requireFunctions functions testcase self s =
     (if list_ex (\<lambda>b. b) (map (\<lambda>func. \<not> hasattr (d1 self) func) functions)
      then (Inl (SkipTest functions), s)
      else testcase self s)"

text \<open>
  How the unittest runner reports what a test method did: \<^verbatim>\<open>SkipTest\<close> is a skip, an
  \<^verbatim>\<open>AssertionError\<close> a failure, any other exception an error.
\<close>

datatype verdict = Passed | Failed | Errored | Skipped

fun report :: "error + unit \<Rightarrow> verdict" where
  "report (Inr u) = Passed"
| "report (Inl AssertionError) = Failed"
| "report (Inl (SkipTest fs)) = Skipped"
| "report (Inl AttributeError) = Errored"
| "report (Inl (Propagated e)) = Errored"

section \<open>Comparing two outcomes\<close>

text \<open>
  Modelled from the spec: the Structural Diff Engine. The harness calls \<^verbatim>\<open>DeepDiff\<close> of the
  deepdiff package, whose code is not part of the sources. The spec's contract: results are
  compared structurally; two errors are equivalent only if both are absent, or both are
  present with matching category and matching descriptive text; states are compared as
  mappings, unordered; the outcomes are equivalent exactly when the diff is empty. The
  category of a recorded error is the class of its \<^verbatim>\<open>'object'\<close>, its text the \<^verbatim>\<open>'message'\<close>
  entry.
\<close>

definition error_equiv :: "(exn \<times> pyval) option \<Rightarrow> (exn \<times> pyval) option \<Rightarrow> bool" where
  "error_equiv a b =
     (case a of
        None \<Rightarrow> (case b of None \<Rightarrow> True | Some y \<Rightarrow> False)
      | Some x \<Rightarrow> (case b of None \<Rightarrow> False | Some y \<Rightarrow> cls (fst x) = cls (fst y) \<and> snd x = snd y))"

text \<open>
  Modelled from the spec: the comparison of two states, "mapping equality (unordered)": the
  two dicts bind every key of either to the same value.
\<close>

definition dict_equal :: "(string \<times> pyval) list \<Rightarrow> (string \<times> pyval) list \<Rightarrow> bool" where
  "dict_equal a b = list_all (\<lambda>k. map_of a k = map_of b k) (map fst a @ map fst b)"

text \<open>
  Modelled from the spec: the diff of two outcomes, empty exactly when results, errors and
  states are equivalent; it lists the fields that differ.
\<close>

definition ddiff :: "outcome \<Rightarrow> outcome \<Rightarrow> string list" where
  "ddiff a b =
     (if result a = result b then [] else [''result'']) @
     (if error_equiv (exception a) (exception b) then [] else [''exception'']) @
     (if dict_equal (state a) (state b) then [] else [''state''])"

section \<open>The scenario \<^verbatim>\<open>test_set_key\<close>\<close>

text \<open>The closure \<^verbatim>\<open>set_key\<close>: \<^verbatim>\<open>rd['foo'] = 'bar'\<close>, returning nothing.\<close>

definition set_key :: closure where
  "set_key rd s =
     (case setitem rd ''foo'' (PStr ''bar'') s of
        (None, s') \<Rightarrow> (Returned PNone, s')
      | (Some e, s') \<Rightarrow> (Raised e, s'))"

text \<open>The closure \<^verbatim>\<open>get_keyerror\<close>: \<^verbatim>\<open>return rd['foo']\<close>.\<close>

definition get_keyerror :: closure where
  "get_keyerror rd s =
     (case getitem rd ''foo'' s of
        (Inl e, s') \<Rightarrow> (Raised e, s')
      | (Inr v, s') \<Rightarrow> (Returned v, s'))"

definition test_set_key :: test where
  "test_set_key self s0 =
     (case run_closure set_key (d1 self) s0 of
        (Inl err, s1) \<Rightarrow> (Inl err, s1)
      | (Inr output_d1, s1) \<Rightarrow>
          (case run_closure set_key (d2 self) s1 of
             (Inl err, s2) \<Rightarrow> (Inl err, s2)
           | (Inr output_d2, s2) \<Rightarrow>
               if ddiff output_d1 output_d2 = [] then (Inr (), s2)
               else (Inl AssertionError, s2)))"

section \<open>Example instances\<close>

text \<open>
  An instance that keeps item \<open>k\<close> under the key \<^verbatim>\<open>namespace:k\<close>, reports exactly the
  items under its namespace and raises a \<^verbatim>\<open>KeyError\<close> whose message is the key when an item
  is missing; one whose \<^verbatim>\<open>to_dict\<close> always reports an empty dict; and one whose
  \<^verbatim>\<open>KeyError\<close> has no \<^verbatim>\<open>message\<close> attribute.
\<close>

definition KeyError :: "pyval option \<Rightarrow> exn" where
  "KeyError m = \<lparr>cls = ''KeyError'', is_Exception = True, message = m, obj_id = 0\<rparr>"

definition plain_dict :: "string \<Rightarrow> string list \<Rightarrow> redis_dict" where
  "plain_dict ns ops =
     \<lparr>namespace = ns, attrs = ops,
      to_dict = (\<lambda>s. map (\<lambda>kv. (drop (length ns + 1) (fst kv), snd kv))
                        (filter (\<lambda>kv. prefix (ns @ '':'') (fst kv)) s)),
      setitem = (\<lambda>k v s. (None, (ns @ '':'' @ k, v) # delete (ns @ '':'' @ k) s)),
      getitem = (\<lambda>k s. (case map_of s (ns @ '':'' @ k) of
                               None \<Rightarrow> Inl (KeyError (Some (PStr k)))
                             | Some v \<Rightarrow> Inr v, s))\<rparr>"

definition forgetful_dict :: "string \<Rightarrow> redis_dict" where
  "forgetful_dict ns = (plain_dict ns []) \<lparr>to_dict := (\<lambda>s. [])\<rparr>"

definition messageless_dict :: "string \<Rightarrow> redis_dict" where
  "messageless_dict ns =
     (plain_dict ns []) \<lparr>getitem := (\<lambda>k s. (Inl (KeyError None), s))\<rparr>"

text \<open>
  A raise that \<^verbatim>\<open>except Exception\<close> does not catch: \<^verbatim>\<open>KeyboardInterrupt\<close> derives from
  \<^verbatim>\<open>BaseException\<close> only and, in Python 3, has no \<^verbatim>\<open>message\<close> attribute; and an instance
  whose item lookup is interrupted that way.
\<close>

definition KeyboardInterrupt :: exn where
  "KeyboardInterrupt =
     \<lparr>cls = ''KeyboardInterrupt'', is_Exception = False, message = None, obj_id = 0\<rparr>"

definition interrupted_dict :: "string \<Rightarrow> redis_dict" where
  "interrupted_dict ns =
     (plain_dict ns []) \<lparr>getitem := (\<lambda>k s. (Inl KeyboardInterrupt, s))\<rparr>"

text \<open>The dicts that \<^verbatim>\<open>run_closure\<close> returns for \<^verbatim>\<open>get_keyerror\<close> and \<^verbatim>\<open>set_key\<close> on such an instance.\<close>

definition keyerror_outcome :: outcome where
  "keyerror_outcome =
     \<lparr>result = PNone, exception = Some (KeyError (Some (PStr ''foo'')), PStr ''foo''), state = []\<rparr>"

definition foo_bar_outcome :: outcome where
  "foo_bar_outcome = \<lparr>result = PNone, exception = None, state = [(''foo'', PStr ''bar'')]\<rparr>"

section \<open>Facts about the store and the patterns\<close>

lemma glob_star_all: "glob_match [CHR ''*''] k"
  by (induction k) simp_all

lemma glob_literal:
  "p \<noteq> CHR ''*'' \<Longrightarrow> p \<noteq> CHR ''?'' \<Longrightarrow> p \<noteq> CHR ''['' \<Longrightarrow> p \<noteq> CHR 0x5C \<Longrightarrow>
   glob_match (p # ps) k = (case k of [] \<Rightarrow> False | c # cs \<Rightarrow> p = c \<and> glob_match ps cs)"
  by (cases k) simp_all

lemma glob_rd_compare: "glob_match ''rd_compare_*'' k = prefix ''rd_compare_'' k"
  by (auto simp: glob_literal glob_star_all prefix_def split: list.splits)

lemma fold_delete: "fold delete ks s = filter (\<lambda>kv. fst kv \<notin> set ks) s"
  by (induction ks arbitrary: s) (auto simp: delete_def intro: filter_cong)

lemma set_scan_iter: "set (scan_iter pat s) = {k \<in> fst ` set s. glob_match pat k}"
  by (auto simp: scan_iter_def db_keys_def)

lemma clear_filter:
  "clear_test_namespace s = filter (\<lambda>kv. \<not> prefix ''rd_compare_'' (fst kv)) s"
  unfolding clear_test_namespace_def fold_delete set_scan_iter
  by (rule filter_cong) (auto simp: glob_rd_compare)

lemma split_nonempty: "split sep s \<noteq> []"
  by (induction s) (auto split: list.splits)

lemma hd_split: "hd (split sep s) = takeWhile (\<lambda>x. x \<noteq> sep) s"
  by (induction s) (auto split: list.splits simp: split_nonempty)

lemma requireFunctions_skip_iff:
  "list_ex (\<lambda>b. b) (map (\<lambda>func. \<not> hasattr rd func) functions) \<longleftrightarrow>
   (\<exists>f \<in> set functions. \<not> hasattr rd f)"
  by (auto simp: list_ex_iff)

lemma takeWhile_no_sep: "c \<notin> set xs \<Longrightarrow> takeWhile (\<lambda>x. x \<noteq> c) xs = xs"
  by (induction xs) auto

lemma takeWhile_sep: "c \<notin> set a \<Longrightarrow> takeWhile (\<lambda>x. x \<noteq> c) (a @ c # b) = a"
  by (induction a) auto

lemma dict_equal_iff: "dict_equal a b \<longleftrightarrow> map_of a = map_of b"
proof
  assume eq: "dict_equal a b"
  show "map_of a = map_of b"
  proof
    fix k
    show "map_of a k = map_of b k"
    proof (cases "k \<in> fst ` set a \<union> fst ` set b")
      case True
      with eq show ?thesis by (auto simp: dict_equal_def list_all_iff)
    next
      case False
      then have "map_of a k = None" and "map_of b k = None"
        by (simp_all add: map_of_eq_None_iff)
      then show ?thesis by simp
    qed
  qed
next
  assume "map_of a = map_of b"
  then show "dict_equal a b" by (simp add: dict_equal_def list_all_iff)
qed

lemma glob_rd_compare_any:
  "glob_match (''rd_compare_'' @ q) k \<Longrightarrow> prefix ''rd_compare_'' k"
  by (auto simp: glob_literal prefix_def split: list.splits)

lemma db_keys_clear:
  "set (db_keys (clear_test_namespace s)) = {k \<in> set (db_keys s). \<not> prefix ''rd_compare_'' k}"
  by (auto simp: clear_filter db_keys_def)

lemma scan_clear_empty:
  "prefix ''rd_compare_'' ns \<Longrightarrow> scan_iter (ns @ ''*'') (clear_test_namespace s) = []"
proof -
  assume "prefix ''rd_compare_'' ns"
  then obtain q where ns: "ns = ''rd_compare_'' @ q" by (auto simp: prefix_def)
  have "set (scan_iter (ns @ ''*'') (clear_test_namespace s)) = {}"
  proof -
    have "\<And>k. glob_match (ns @ ''*'') k \<Longrightarrow> prefix ''rd_compare_'' k"
      using glob_rd_compare_any [of "q @ ''*''"] by (simp add: ns)
    then show ?thesis
      using db_keys_clear [of s] by (auto simp: scan_iter_def)
  qed
  then show ?thesis by simp
qed

lemma run_closure_fail:
  "\<not> sanity_check rd (snd (closure rd s)) \<Longrightarrow>
   run_closure closure rd s = (Inl AssertionError, snd (closure rd s))"
  by (cases "closure rd s") (simp add: run_closure_def)

lemma run_closure_ok:
  "sanity_check rd (snd (closure rd s)) \<Longrightarrow>
   run_closure closure rd s =
     (case capture (fst (closure rd s)) of
        Inl err \<Rightarrow> Inl err
      | Inr (res, exc) \<Rightarrow> Inr \<lparr>result = res, exception = exc, state = to_dict rd (snd (closure rd s))\<rparr>,
      clear_test_namespace (snd (closure rd s)))"
  by (cases "closure rd s") (simp add: run_closure_def Let_def split: sum.splits)

section \<open>Facts about \<^verbatim>\<open>run_closure\<close> and example runs\<close>

lemmas harness_defs =
  run_closure_def set_key_def get_keyerror_def plain_dict_def forgetful_dict_def
  messageless_dict_def interrupted_dict_def KeyError_def KeyboardInterrupt_def sanity_check_def
  raw_keys_def to_rm_def scan_iter_def db_keys_def dict_keys_def delete_def
  clear_test_namespace_def capture_def

lemma sort_eq_set: "sort xs = sort ys \<Longrightarrow> set xs = set (ys :: string list)"
  by (metis set_sort)

lemma ex_plain_run:
  "run_closure set_key (plain_dict ''rd_compare_v1'' []) [] =
     (Inr \<lparr>result = PNone, exception = None, state = [(''foo'', PStr ''bar'')]\<rparr>, [])"
  by (simp add: harness_defs)

lemma ex_forgetful_run:
  "run_closure set_key (forgetful_dict ''rd_compare_v1'') [] =
     (Inl AssertionError, [(''rd_compare_v1:foo'', PStr ''bar'')])"
  by (simp add: harness_defs)

lemma ex_keyerror_run:
  "run_closure get_keyerror (plain_dict ''rd_compare_v1'' []) [] =
     (Inr \<lparr>result = PNone, exception = Some (KeyError (Some (PStr ''foo'')), PStr ''foo''),
           state = []\<rparr>, [])"
  by (simp add: harness_defs)

lemma ex_messageless_call:
  "fst (get_keyerror (messageless_dict ''rd_compare_v1'') []) = Raised (KeyError None)"
  by (simp add: harness_defs)

lemma ex_interrupted_call:
  "fst (get_keyerror (interrupted_dict ''rd_compare_v1'') []) = Raised KeyboardInterrupt"
  by (simp add: get_keyerror_def interrupted_dict_def plain_dict_def)

lemma ex_keyerror_call:
  "fst (get_keyerror (plain_dict ''rd_compare_v1'' []) []) = Raised (KeyError (Some (PStr ''foo'')))"
  by (simp add: harness_defs)

lemma ex_plain_sanity:
  "sanity_check (plain_dict ''rd_compare_v1'' []) (snd (set_key (plain_dict ''rd_compare_v1'' []) []))"
  by (simp add: harness_defs)

lemma ex_forgetful_sanity:
  "\<not> sanity_check (forgetful_dict ''rd_compare_v1'') (snd (set_key (forgetful_dict ''rd_compare_v1'') []))"
  by (simp add: harness_defs)

lemma capture_Inr:
  "capture r = Inr (res, exc) \<longleftrightarrow>
     (\<exists>v. r = Returned v \<and> res = v \<and> exc = None) \<or>
     (\<exists>e m. r = Raised e \<and> is_Exception e \<and> message e = Some m \<and> res = PNone \<and> exc = Some (e, m))"
  by (cases r) (auto simp: capture_def split: option.splits)

lemma run_closure_Inr:
  "run_closure closure rd s = (Inr out, s') \<Longrightarrow>
   sanity_check rd (snd (closure rd s)) \<and>
   s' = clear_test_namespace (snd (closure rd s)) \<and>
   capture (fst (closure rd s)) = Inr (result out, exception out) \<and>
   state out = to_dict rd (snd (closure rd s))"
proof -
  assume r: "run_closure closure rd s = (Inr out, s')"
  have ok: "sanity_check rd (snd (closure rd s))"
  proof (rule ccontr)
    assume "\<not> sanity_check rd (snd (closure rd s))"
    with run_closure_fail [of rd closure s] r show False by simp
  qed
  from r show ?thesis
    unfolding run_closure_ok [of rd closure s, OF ok] using ok
    by (auto split: sum.splits)
qed

lemma error_equiv_iff:
  "error_equiv a b \<longleftrightarrow>
     (a = None \<and> b = None) \<or>
     (\<exists>e1 m1 e2 m2. a = Some (e1, m1) \<and> b = Some (e2, m2) \<and> cls e1 = cls e2 \<and> m1 = m2)"
  by (cases a; cases b) (auto simp: error_equiv_def)

lemma ddiff_empty_iff:
  "ddiff a b = [] \<longleftrightarrow>
     result a = result b \<and> error_equiv (exception a) (exception b) \<and> dict_equal (state a) (state b)"
  by (simp add: ddiff_def)

lemma run_closure_exception:
  assumes "run_closure c rd s = (Inr out, t)"
  shows "(exception out = None \<longleftrightarrow> (\<exists>v. fst (c rd s) = Returned v)) \<and>
         (\<forall>e m. exception out = Some (e, m) \<longleftrightarrow> fst (c rd s) = Raised e \<and> message e = Some m)"
proof -
  from run_closure_Inr [OF assms]
  have "capture (fst (c rd s)) = Inr (result out, exception out)" by simp
  then show ?thesis
    unfolding capture_Inr by (cases "fst (c rd s)") auto
qed

section \<open>\<^verbatim>\<open>run_closure\<close>: cleanup\<close>

text \<open>
  C1, as stated: \<^verbatim>\<open>run_closure\<close> clears the namespace on every exit path, also when the
  sanity check fails. It does not: with an instance whose \<^verbatim>\<open>to_dict\<close> reports nothing, the
  closure \<^verbatim>\<open>set_key\<close> leaves the key \<^verbatim>\<open>rd_compare_v1:foo\<close> behind, the assertion fails, and
  the key is still in the database when \<^verbatim>\<open>run_closure\<close> raises.
\<close>

theorem run_closure_skips_clear_counterexample:
  "fst (run_closure set_key (forgetful_dict ''rd_compare_v1'') []) = Inl AssertionError \<and>
   snd (run_closure set_key (forgetful_dict ''rd_compare_v1'') []) =
     [(''rd_compare_v1:foo'', PStr ''bar'')] \<and>
   scan_iter (namespace (forgetful_dict ''rd_compare_v1'') @ ''*'')
     (snd (run_closure set_key (forgetful_dict ''rd_compare_v1'') [])) = [''rd_compare_v1:foo''] \<and>
   clear_test_namespace (snd (run_closure set_key (forgetful_dict ''rd_compare_v1'') [])) = []"
  by (simp add: harness_defs)

text \<open>
  C1, amended: whenever the sanity check passes, whether the closure returned, raised, or
  the recording of its exception failed, \<^verbatim>\<open>run_closure\<close> leaves the database as
  \<^verbatim>\<open>clear_test_namespace\<close> makes it: no key matches \<^verbatim>\<open>rd_compare_*\<close>, and none lies under a
  namespace that starts with \<^verbatim>\<open>rd_compare_\<close>. When the check fails, \<^verbatim>\<open>run_closure\<close> raises
  the \<^verbatim>\<open>AssertionError\<close> and the database is as the closure left it; \<^verbatim>\<open>tearDown\<close>, which
  runs after every test, then clears it.
\<close>

theorem run_closure_clears_when_consistent:
  "(sanity_check rd (snd (closure rd s)) \<longrightarrow>
      snd (run_closure closure rd s) = clear_test_namespace (snd (closure rd s)) \<and>
      scan_iter ''rd_compare_*'' (snd (run_closure closure rd s)) = [] \<and>
      (prefix ''rd_compare_'' (namespace rd) \<longrightarrow>
         scan_iter (namespace rd @ ''*'') (snd (run_closure closure rd s)) = [])) \<and>
   (\<not> sanity_check rd (snd (closure rd s)) \<longrightarrow>
      run_closure closure rd s = (Inl AssertionError, snd (closure rd s))) \<and>
   scan_iter ''rd_compare_*'' (tearDown (snd (run_closure closure rd s))) = []"
proof (intro conjI impI)
  have "prefix ''rd_compare_'' ''rd_compare_''" by simp
  then show "scan_iter ''rd_compare_*'' (tearDown (snd (run_closure closure rd s))) = []"
    unfolding tearDown_def using scan_clear_empty [of "''rd_compare_''"] by simp
next
  assume ok: "sanity_check rd (snd (closure rd s))"
  then show fin: "snd (run_closure closure rd s) = clear_test_namespace (snd (closure rd s))"
    by (simp add: run_closure_ok)
  have "prefix ''rd_compare_'' ''rd_compare_''" by simp
  then show "scan_iter ''rd_compare_*'' (snd (run_closure closure rd s)) = []"
    unfolding fin using scan_clear_empty [of "''rd_compare_''"] by simp
  assume "prefix ''rd_compare_'' (namespace rd)"
  then show "scan_iter (namespace rd @ ''*'') (snd (run_closure closure rd s)) = []"
    unfolding fin by (rule scan_clear_empty)
next
  assume "\<not> sanity_check rd (snd (closure rd s))"
  then show "run_closure closure rd s = (Inl AssertionError, snd (closure rd s))"
    by (rule run_closure_fail)
qed

theorem run_closure_clears_when_consistent_witness:
  "sanity_check (plain_dict ''rd_compare_v1'' []) (snd (set_key (plain_dict ''rd_compare_v1'' []) [])) \<and>
   prefix ''rd_compare_'' (namespace (plain_dict ''rd_compare_v1'' [])) \<and>
   snd (run_closure set_key (plain_dict ''rd_compare_v1'' []) []) = [] \<and>
   scan_iter (namespace (plain_dict ''rd_compare_v1'' []) @ ''*'')
     (snd (run_closure set_key (plain_dict ''rd_compare_v1'' []) [])) = [] \<and>
   \<not> sanity_check (forgetful_dict ''rd_compare_v1'') (snd (set_key (forgetful_dict ''rd_compare_v1'') [])) \<and>
   run_closure set_key (forgetful_dict ''rd_compare_v1'') [] =
     (Inl AssertionError, [(''rd_compare_v1:foo'', PStr ''bar'')])"
proof -
  have p: "prefix ''rd_compare_'' (namespace (plain_dict ''rd_compare_v1'' []))"
    by (simp add: plain_dict_def)
  have s1: "snd (set_key (plain_dict ''rd_compare_v1'' []) []) = [(''rd_compare_v1:foo'', PStr ''bar'')]"
    by (simp add: harness_defs)
  have s2: "snd (set_key (forgetful_dict ''rd_compare_v1'') []) = [(''rd_compare_v1:foo'', PStr ''bar'')]"
    by (simp add: harness_defs)
  have c: "clear_test_namespace [(''rd_compare_v1:foo'', PStr ''bar'')] = []"
    by (simp add: harness_defs)
  show ?thesis
    using ex_plain_sanity ex_forgetful_sanity p
      run_closure_clears_when_consistent [of "plain_dict ''rd_compare_v1'' []" set_key "[]"]
      run_closure_clears_when_consistent [of "forgetful_dict ''rd_compare_v1''" set_key "[]"]
    by (simp add: s1 s2 c scan_iter_def db_keys_def)
qed

section \<open>Comparing recorded exceptions\<close>

text \<open>
  C2. Two recorded errors compare as equal exactly when both are absent or both are present
  with the same class and the same message; the identity of the exception objects plays no
  part; an error on one side only always gives a non-empty diff. For two dicts returned by
  \<^verbatim>\<open>run_closure\<close> this means: both closures returned, or both raised exceptions of the same
  class with the same \<^verbatim>\<open>message\<close>.
\<close>

theorem error_comparison:
  "(error_equiv (exception a) (exception b) \<longleftrightarrow>
      (exception a = None \<and> exception b = None) \<or>
      (\<exists>e1 m1 e2 m2. exception a = Some (e1, m1) \<and> exception b = Some (e2, m2) \<and>
         cls e1 = cls e2 \<and> m1 = m2)) \<and>
   (ddiff a b = [] \<longrightarrow> error_equiv (exception a) (exception b)) \<and>
   ((exception a = None) \<noteq> (exception b = None) \<longrightarrow> ddiff a b \<noteq> []) \<and>
   ddiff (a\<lparr>exception := map_option (\<lambda>em. ((fst em)\<lparr>obj_id := i\<rparr>, snd em)) (exception a)\<rparr>) b =
     ddiff a b \<and>
   (run_closure c1 rd1 s1 = (Inr a, t1) \<and> run_closure c2 rd2 s2 = (Inr b, t2) \<longrightarrow>
      (error_equiv (exception a) (exception b) \<longleftrightarrow>
         (\<exists>v1 v2. fst (c1 rd1 s1) = Returned v1 \<and> fst (c2 rd2 s2) = Returned v2) \<or>
         (\<exists>e1 e2. fst (c1 rd1 s1) = Raised e1 \<and> fst (c2 rd2 s2) = Raised e2 \<and>
            cls e1 = cls e2 \<and> message e1 = message e2)))"
proof (intro conjI impI)
  show "error_equiv (exception a) (exception b) \<longleftrightarrow>
      (exception a = None \<and> exception b = None) \<or>
      (\<exists>e1 m1 e2 m2. exception a = Some (e1, m1) \<and> exception b = Some (e2, m2) \<and>
         cls e1 = cls e2 \<and> m1 = m2)"
    by (rule error_equiv_iff)
next
  assume "ddiff a b = []"
  then show "error_equiv (exception a) (exception b)"
    by (simp add: ddiff_empty_iff)
next
  assume "(exception a = None) \<noteq> (exception b = None)"
  then have "\<not> error_equiv (exception a) (exception b)"
    by (auto simp: error_equiv_iff)
  then show "ddiff a b \<noteq> []"
    by (simp add: ddiff_empty_iff)
next
  have "error_equiv (map_option (\<lambda>em. ((fst em)\<lparr>obj_id := i\<rparr>, snd em)) (exception a)) (exception b) =
        error_equiv (exception a) (exception b)"
    by (cases "exception a"; cases "exception b") (simp_all add: error_equiv_def)
  then show "ddiff (a\<lparr>exception := map_option (\<lambda>em. ((fst em)\<lparr>obj_id := i\<rparr>, snd em)) (exception a)\<rparr>) b =
     ddiff a b"
    by (simp add: ddiff_def)
next
  assume r: "run_closure c1 rd1 s1 = (Inr a, t1) \<and> run_closure c2 rd2 s2 = (Inr b, t2)"
  note x1 = run_closure_exception [of c1 rd1 s1 a t1, OF r [THEN conjunct1]]
  note x2 = run_closure_exception [of c2 rd2 s2 b t2, OF r [THEN conjunct2]]
  show "error_equiv (exception a) (exception b) \<longleftrightarrow>
         (\<exists>v1 v2. fst (c1 rd1 s1) = Returned v1 \<and> fst (c2 rd2 s2) = Returned v2) \<or>
         (\<exists>e1 e2. fst (c1 rd1 s1) = Raised e1 \<and> fst (c2 rd2 s2) = Raised e2 \<and>
            cls e1 = cls e2 \<and> message e1 = message e2)"
  proof (cases "fst (c1 rd1 s1)")
    case R1: (Returned v1)
    with x1 [THEN conjunct1] have a: "exception a = None" by simp
    show ?thesis
    proof (cases "fst (c2 rd2 s2)")
      case (Returned v2)
      with x2 [THEN conjunct1] have "exception b = None" by simp
      with a R1 Returned show ?thesis by (simp add: error_equiv_def)
    next
      case (Raised e2)
      with x2 [THEN conjunct1] have "exception b \<noteq> None" by simp
      then obtain e' m' where "exception b = Some (e', m')" by (cases "exception b") auto
      with a R1 Raised show ?thesis by (simp add: error_equiv_def)
    qed
  next
    case R1: (Raised e1)
    with x1 [THEN conjunct1] have na: "exception a \<noteq> None" by simp
    then obtain e m where a: "exception a = Some (e, m)" by (cases "exception a") auto
    with x1 [THEN conjunct2] R1 have e: "e = e1" "message e1 = Some m" by auto
    show ?thesis
    proof (cases "fst (c2 rd2 s2)")
      case (Returned v2)
      with x2 [THEN conjunct1] have "exception b = None" by simp
      with a R1 Returned show ?thesis by (simp add: error_equiv_def)
    next
      case (Raised e2)
      with x2 [THEN conjunct1] have "exception b \<noteq> None" by simp
      then obtain e' m' where b: "exception b = Some (e', m')" by (cases "exception b") auto
      with x2 [THEN conjunct2] Raised have e': "e' = e2" "message e2 = Some m'" by auto
      from a b e e' R1 Raised show ?thesis by (simp add: error_equiv_def)
    qed
  qed
qed


theorem error_comparison_witness:
  "run_closure get_keyerror (plain_dict ''rd_compare_v1'' []) [] = (Inr keyerror_outcome, []) \<and>
   run_closure set_key (plain_dict ''rd_compare_v1'' []) [] = (Inr foo_bar_outcome, []) \<and>
   (exception keyerror_outcome = None) \<noteq> (exception foo_bar_outcome = None) \<and>
   ddiff keyerror_outcome foo_bar_outcome \<noteq> [] \<and>
   \<not> error_equiv (exception keyerror_outcome) (exception foo_bar_outcome) \<and>
   ddiff keyerror_outcome keyerror_outcome = [] \<and>
   error_equiv (exception keyerror_outcome) (exception keyerror_outcome) \<and>
   ddiff (keyerror_outcome\<lparr>exception :=
       map_option (\<lambda>em. ((fst em)\<lparr>obj_id := 7\<rparr>, snd em)) (exception keyerror_outcome)\<rparr>)
     keyerror_outcome = []"
proof -
  have k: "run_closure get_keyerror (plain_dict ''rd_compare_v1'' []) [] = (Inr keyerror_outcome, [])"
    unfolding keyerror_outcome_def by (rule ex_keyerror_run)
  have f: "run_closure set_key (plain_dict ''rd_compare_v1'' []) [] = (Inr foo_bar_outcome, [])"
    unfolding foo_bar_outcome_def by (rule ex_plain_run)
  have n: "(exception keyerror_outcome = None) \<noteq> (exception foo_bar_outcome = None)"
    by (simp add: keyerror_outcome_def foo_bar_outcome_def)
  have d: "ddiff keyerror_outcome keyerror_outcome = []"
    by (simp add: ddiff_def error_equiv_def dict_equal_def keyerror_outcome_def)
  have c1: "fst (get_keyerror (plain_dict ''rd_compare_v1'' []) []) = Raised (KeyError (Some (PStr ''foo'')))"
    by (rule ex_keyerror_call)
  have c2: "fst (set_key (plain_dict ''rd_compare_v1'' []) []) = Returned PNone"
    by (simp add: set_key_def plain_dict_def)
  note t1 = error_comparison [of keyerror_outcome foo_bar_outcome 7 get_keyerror
      "plain_dict ''rd_compare_v1'' []" "[]" "[]" set_key "plain_dict ''rd_compare_v1'' []" "[]" "[]"]
  note t2 = error_comparison [of keyerror_outcome keyerror_outcome 7 get_keyerror
      "plain_dict ''rd_compare_v1'' []" "[]" "[]" get_keyerror "plain_dict ''rd_compare_v1'' []" "[]" "[]"]
  have a1: "ddiff keyerror_outcome foo_bar_outcome \<noteq> []"
    using t1 [THEN conjunct2, THEN conjunct2, THEN conjunct1] n by (rule mp)
  have "error_equiv (exception keyerror_outcome) (exception foo_bar_outcome) \<longleftrightarrow>
         (\<exists>v1 v2. fst (get_keyerror (plain_dict ''rd_compare_v1'' []) []) = Returned v1 \<and>
            fst (set_key (plain_dict ''rd_compare_v1'' []) []) = Returned v2) \<or>
         (\<exists>e1 e2. fst (get_keyerror (plain_dict ''rd_compare_v1'' []) []) = Raised e1 \<and>
            fst (set_key (plain_dict ''rd_compare_v1'' []) []) = Raised e2 \<and>
            cls e1 = cls e2 \<and> message e1 = message e2)"
    using t1 [THEN conjunct2, THEN conjunct2, THEN conjunct2, THEN conjunct2] conjI [OF k f]
    by (rule mp)
  then have a2: "\<not> error_equiv (exception keyerror_outcome) (exception foo_bar_outcome)"
    by (simp add: c1 c2)
  have a3: "error_equiv (exception keyerror_outcome) (exception keyerror_outcome)"
    using t2 [THEN conjunct2, THEN conjunct1] d by (rule mp)
  have a4: "ddiff (keyerror_outcome\<lparr>exception :=
       map_option (\<lambda>em. ((fst em)\<lparr>obj_id := 7\<rparr>, snd em)) (exception keyerror_outcome)\<rparr>)
     keyerror_outcome = []"
    using t2 [THEN conjunct2, THEN conjunct2, THEN conjunct2, THEN conjunct1] d by (rule trans)
  show ?thesis
    by (intro conjI) (rule k f n a1 a2 d a3 a4)+
qed

section \<open>\<^verbatim>\<open>run_closure\<close>: the sanity check\<close>

text \<open>
  C3. In every dict that \<^verbatim>\<open>run_closure\<close> returns, \<^verbatim>\<open>state\<close> is what \<^verbatim>\<open>to_dict\<close> reported
  after the closure ran and its key set is the set of the raw keys found under the
  namespace, prefix stripped; when the two key sets differ, \<^verbatim>\<open>run_closure\<close> raises the
  \<^verbatim>\<open>AssertionError\<close> and returns no dict.
\<close>

theorem state_keys_match_raw_keys:
  "(run_closure closure rd s = (Inr out, s') \<longrightarrow>
      state out = to_dict rd (snd (closure rd s)) \<and>
      set (dict_keys (state out)) = set (raw_keys rd (snd (closure rd s)))) \<and>
   (set (dict_keys (to_dict rd (snd (closure rd s)))) \<noteq> set (raw_keys rd (snd (closure rd s))) \<longrightarrow>
      run_closure closure rd s = (Inl AssertionError, snd (closure rd s)))"
proof (intro conjI impI)
  assume r: "run_closure closure rd s = (Inr out, s')"
  from run_closure_Inr [OF r] show "state out = to_dict rd (snd (closure rd s))" by simp
  from run_closure_Inr [OF r]
  have "sort (raw_keys rd (snd (closure rd s))) = sort (dict_keys (state out))"
    by (simp add: sanity_check_def)
  then show "set (dict_keys (state out)) = set (raw_keys rd (snd (closure rd s)))"
    by (rule sort_eq_set [symmetric])
next
  assume "set (dict_keys (to_dict rd (snd (closure rd s)))) \<noteq> set (raw_keys rd (snd (closure rd s)))"
  then have "\<not> sanity_check rd (snd (closure rd s))"
    unfolding sanity_check_def using sort_eq_set by blast
  then show "run_closure closure rd s = (Inl AssertionError, snd (closure rd s))"
    by (rule run_closure_fail)
qed

theorem state_keys_match_raw_keys_witness:
  "run_closure set_key (plain_dict ''rd_compare_v1'' []) [] =
     (Inr \<lparr>result = PNone, exception = None, state = [(''foo'', PStr ''bar'')]\<rparr>, []) \<and>
   set (dict_keys [(''foo'', PStr ''bar'')]) =
     set (raw_keys (plain_dict ''rd_compare_v1'' []) [(''rd_compare_v1:foo'', PStr ''bar'')]) \<and>
   set (dict_keys (to_dict (forgetful_dict ''rd_compare_v1'') [(''rd_compare_v1:foo'', PStr ''bar'')])) \<noteq>
     set (raw_keys (forgetful_dict ''rd_compare_v1'') [(''rd_compare_v1:foo'', PStr ''bar'')]) \<and>
   run_closure set_key (forgetful_dict ''rd_compare_v1'') [] =
     (Inl AssertionError, [(''rd_compare_v1:foo'', PStr ''bar'')])"
proof -
  have s1: "snd (set_key (plain_dict ''rd_compare_v1'' []) []) = [(''rd_compare_v1:foo'', PStr ''bar'')]"
    by (simp add: harness_defs)
  have s2: "snd (set_key (forgetful_dict ''rd_compare_v1'') []) = [(''rd_compare_v1:foo'', PStr ''bar'')]"
    by (simp add: harness_defs)
  have d: "set (dict_keys (to_dict (forgetful_dict ''rd_compare_v1'') [(''rd_compare_v1:foo'', PStr ''bar'')])) \<noteq>
     set (raw_keys (forgetful_dict ''rd_compare_v1'') [(''rd_compare_v1:foo'', PStr ''bar'')])"
    by (simp add: harness_defs)
  show ?thesis
    using ex_plain_run d
      state_keys_match_raw_keys [of set_key "plain_dict ''rd_compare_v1'' []" "[]"
        "\<lparr>result = PNone, exception = None, state = [(''foo'', PStr ''bar'')]\<rparr>" "[]"]
      state_keys_match_raw_keys [of set_key "forgetful_dict ''rd_compare_v1''" "[]"]
    by (simp add: s1 s2)
qed

section \<open>\<^verbatim>\<open>run_closure\<close>: result and exception\<close>

text \<open>
  C4. In every dict that \<^verbatim>\<open>run_closure\<close> returns, \<^verbatim>\<open>result\<close> and \<^verbatim>\<open>exception\<close> are never both
  present: when the closure raised, \<^verbatim>\<open>result\<close> is \<^verbatim>\<open>None\<close> and \<^verbatim>\<open>exception\<close> is recorded; when
  it returned, \<^verbatim>\<open>result\<close> is the returned value and \<^verbatim>\<open>exception\<close> is \<^verbatim>\<open>None\<close>.
\<close>

theorem result_error_exclusive:
  "run_closure closure rd s = (Inr out, s') \<Longrightarrow>
   (case fst (closure rd s) of
      Raised e \<Rightarrow> result out = PNone \<and> exception out \<noteq> None
    | Returned v \<Rightarrow> result out = v \<and> exception out = None) \<and>
   \<not> (result out \<noteq> PNone \<and> exception out \<noteq> None)"
proof -
  assume r: "run_closure closure rd s = (Inr out, s')"
  from run_closure_Inr [OF r]
  have c: "capture (fst (closure rd s)) = Inr (result out, exception out)" by simp
  show ?thesis
  proof (cases "fst (closure rd s)")
    case (Returned v)
    with c show ?thesis by (simp add: capture_def)
  next
    case (Raised e)
    with c have "result out = PNone" and "\<exists>m. exception out = Some (e, m)"
      by (auto simp: capture_Inr)
    with Raised show ?thesis by auto
  qed
qed

theorem result_error_exclusive_witness:
  "run_closure set_key (plain_dict ''rd_compare_v1'' []) [] =
     (Inr \<lparr>result = PNone, exception = None, state = [(''foo'', PStr ''bar'')]\<rparr>, []) \<and>
   fst (set_key (plain_dict ''rd_compare_v1'' []) []) = Returned PNone \<and>
   run_closure get_keyerror (plain_dict ''rd_compare_v1'' []) [] =
     (Inr \<lparr>result = PNone, exception = Some (KeyError (Some (PStr ''foo'')), PStr ''foo''),
           state = []\<rparr>, []) \<and>
   fst (get_keyerror (plain_dict ''rd_compare_v1'' []) []) = Raised (KeyError (Some (PStr ''foo'')))"
  using ex_plain_run ex_keyerror_run
    result_error_exclusive [OF ex_plain_run] result_error_exclusive [OF ex_keyerror_run]
  by (simp add: set_key_def get_keyerror_def plain_dict_def)

section \<open>Skipped tests\<close>

text \<open>
  C5. When the first instance \<^verbatim>\<open>d1\<close> lacks one of the required functions, the decorated test
  raises \<^verbatim>\<open>SkipTest\<close>, which is reported as a skip and not as a failure; the test case is
  not run, whatever the second instance offers, and the database is not touched. The
  decision reads only the attribute names of \<^verbatim>\<open>d1\<close>: when \<^verbatim>\<open>d1\<close> has all of them, the test
  case runs.
\<close>

theorem requireFunctions_skips:
  "(f \<in> set functions \<and> \<not> hasattr (d1 self) f \<longrightarrow>
      requireFunctions functions testcase self s = (Inl (SkipTest functions), s) \<and>
      requireFunctions functions testcase (self\<lparr>d2 := other\<rparr>) s = (Inl (SkipTest functions), s) \<and>
      report (fst (requireFunctions functions testcase self s)) = Skipped) \<and>
   ((\<forall>g \<in> set functions. hasattr (d1 self) g) \<longrightarrow>
      requireFunctions functions testcase self s = testcase self s)"
proof (intro conjI impI)
  assume a: "f \<in> set functions \<and> \<not> hasattr (d1 self) f"
  then have sk: "list_ex (\<lambda>b. b) (map (\<lambda>func. \<not> hasattr (d1 self) func) functions)"
    unfolding requireFunctions_skip_iff by blast
  then show r: "requireFunctions functions testcase self s = (Inl (SkipTest functions), s)"
    by (simp add: requireFunctions_def)
  have "d1 (self\<lparr>d2 := other\<rparr>) = d1 self" by simp
  with sk show "requireFunctions functions testcase (self\<lparr>d2 := other\<rparr>) s = (Inl (SkipTest functions), s)"
    by (simp add: requireFunctions_def)
  show "report (fst (requireFunctions functions testcase self s)) = Skipped"
    by (simp add: r)
next
  assume "\<forall>g \<in> set functions. hasattr (d1 self) g"
  then have "\<not> list_ex (\<lambda>b. b) (map (\<lambda>func. \<not> hasattr (d1 self) func) functions)"
    unfolding requireFunctions_skip_iff by blast
  then show "requireFunctions functions testcase self s = testcase self s"
    by (simp add: requireFunctions_def)
qed

theorem requireFunctions_skips_witness:
  "''multi_get'' \<in> set [''multi_get''] \<and>
   \<not> hasattr (d1 \<lparr>d1 = plain_dict ''rd_compare_v1'' [], d2 = plain_dict ''rd_compare_v2'' []\<rparr>) ''multi_get'' \<and>
   hasattr (plain_dict ''rd_compare_v2'' [''multi_get'']) ''multi_get'' \<and>
   requireFunctions [''multi_get''] test_set_key
     (\<lparr>d1 = plain_dict ''rd_compare_v1'' [], d2 = plain_dict ''rd_compare_v2'' []\<rparr>
        \<lparr>d2 := plain_dict ''rd_compare_v2'' [''multi_get'']\<rparr>) [] =
     (Inl (SkipTest [''multi_get'']), []) \<and>
   hasattr (d1 \<lparr>d1 = plain_dict ''rd_compare_v1'' [''keys''],
        d2 = plain_dict ''rd_compare_v2'' []\<rparr>) ''keys'' \<and>
   requireFunctions [''keys''] test_set_key
     \<lparr>d1 = plain_dict ''rd_compare_v1'' [''keys''], d2 = plain_dict ''rd_compare_v2'' []\<rparr> [] =
   test_set_key \<lparr>d1 = plain_dict ''rd_compare_v1'' [''keys''], d2 = plain_dict ''rd_compare_v2'' []\<rparr> []"
proof -
  have a: "''multi_get'' \<in> set [''multi_get'']" by simp
  have b: "\<not> hasattr (d1 \<lparr>d1 = plain_dict ''rd_compare_v1'' [], d2 = plain_dict ''rd_compare_v2'' []\<rparr>) ''multi_get''"
    by (simp add: hasattr_def plain_dict_def)
  have c: "hasattr (plain_dict ''rd_compare_v2'' [''multi_get'']) ''multi_get''"
    by (simp add: hasattr_def plain_dict_def)
  have d: "\<forall>g \<in> set [''keys'']. hasattr (d1 \<lparr>d1 = plain_dict ''rd_compare_v1'' [''keys''],
        d2 = plain_dict ''rd_compare_v2'' []\<rparr>) g"
    by (simp add: hasattr_def plain_dict_def)
  have e: "hasattr (d1 \<lparr>d1 = plain_dict ''rd_compare_v1'' [''keys''],
        d2 = plain_dict ''rd_compare_v2'' []\<rparr>) ''keys''"
    by (simp add: hasattr_def plain_dict_def)
  show ?thesis
    using a b c d e
      requireFunctions_skips [of "''multi_get''" "[''multi_get'']"
        "\<lparr>d1 = plain_dict ''rd_compare_v1'' [], d2 = plain_dict ''rd_compare_v2'' []\<rparr>"
        test_set_key "[]" "plain_dict ''rd_compare_v2'' [''multi_get'']"]
      requireFunctions_skips [of "''keys''" "[''keys'']"
        "\<lparr>d1 = plain_dict ''rd_compare_v1'' [''keys''], d2 = plain_dict ''rd_compare_v2'' []\<rparr>"
        test_set_key "[]"]
    by blast
qed

section \<open>Clearing the test keys\<close>

text \<open>
  C6. \<^verbatim>\<open>clear_test_namespace\<close> deletes every key whose name starts with \<^verbatim>\<open>rd_compare_\<close>;
  when no key matches it leaves the database as it is; clearing twice gives the same
  database as clearing once.
\<close>

theorem clear_test_namespace_idempotent:
  "(\<forall>k. prefix ''rd_compare_'' k \<longrightarrow> k \<notin> set (db_keys (clear_test_namespace s))) \<and>
   (scan_iter ''rd_compare_*'' s = [] \<longrightarrow> clear_test_namespace s = s) \<and>
   clear_test_namespace (clear_test_namespace s) = clear_test_namespace s"
proof (intro conjI allI impI)
  fix k assume "prefix ''rd_compare_'' k"
  then show "k \<notin> set (db_keys (clear_test_namespace s))"
    by (simp add: db_keys_clear)
next
  assume "scan_iter ''rd_compare_*'' s = []"
  then show "clear_test_namespace s = s"
    by (simp add: clear_test_namespace_def)
next
  show "clear_test_namespace (clear_test_namespace s) = clear_test_namespace s"
    by (simp add: clear_filter)
qed

theorem clear_test_namespace_idempotent_witness:
  "prefix ''rd_compare_'' ''rd_compare_v1:foo'' \<and>
   ''rd_compare_v1:foo'' \<notin> set (db_keys (clear_test_namespace
       [(''rd_compare_v1:foo'', PStr ''bar''), (''other'', PInt 1)])) \<and>
   scan_iter ''rd_compare_*'' [(''other'', PInt 1)] = [] \<and>
   clear_test_namespace [(''other'', PInt 1)] = [(''other'', PInt 1)]"
proof -
  have p: "prefix ''rd_compare_'' ''rd_compare_v1:foo''" by simp
  have e: "scan_iter ''rd_compare_*'' [(''other'', PInt 1)] = []"
    by (simp add: scan_iter_def db_keys_def)
  show ?thesis
    using p e
      clear_test_namespace_idempotent [of "[(''rd_compare_v1:foo'', PStr ''bar''), (''other'', PInt 1)]"]
      clear_test_namespace_idempotent [of "[(''other'', PInt 1)]"]
    by blast
qed

section \<open>The scenario \<^verbatim>\<open>test_set_key\<close>, run\<close>

text \<open>
  C7. When item assignment succeeds on both instances and each instance's \<^verbatim>\<open>to_dict\<close> then
  reports the dict \<^verbatim>\<open>{'foo': 'bar'}\<close> and passes the sanity check, \<^verbatim>\<open>run_closure\<close> returns for each
  the dict with \<^verbatim>\<open>result\<close> \<^verbatim>\<open>None\<close>, \<^verbatim>\<open>exception\<close> \<^verbatim>\<open>None\<close> and that state, the diff of the two is
  empty and the test passes. The second instance runs on the database that the cleanup
  after the first run left.
\<close>

theorem test_set_key_outcomes:
  assumes "setitem (d1 self) ''foo'' (PStr ''bar'') s0 = (None, s1)"
    and "sanity_check (d1 self) s1"
    and "map_of (to_dict (d1 self) s1) = [''foo'' \<mapsto> PStr ''bar'']"
    and "setitem (d2 self) ''foo'' (PStr ''bar'') (clear_test_namespace s1) = (None, s2)"
    and "sanity_check (d2 self) s2"
    and "map_of (to_dict (d2 self) s2) = [''foo'' \<mapsto> PStr ''bar'']"
  shows "run_closure set_key (d1 self) s0 =
           (Inr \<lparr>result = PNone, exception = None, state = to_dict (d1 self) s1\<rparr>,
            clear_test_namespace s1) \<and>
         run_closure set_key (d2 self) (clear_test_namespace s1) =
           (Inr \<lparr>result = PNone, exception = None, state = to_dict (d2 self) s2\<rparr>,
            clear_test_namespace s2) \<and>
         ddiff \<lparr>result = PNone, exception = None, state = to_dict (d1 self) s1\<rparr>
               \<lparr>result = PNone, exception = None, state = to_dict (d2 self) s2\<rparr> = [] \<and>
         test_set_key self s0 = (Inr (), clear_test_namespace s2)"
proof -
  have c1: "set_key (d1 self) s0 = (Returned PNone, s1)"
    using assms(1) by (simp add: set_key_def)
  have c2: "set_key (d2 self) (clear_test_namespace s1) = (Returned PNone, s2)"
    using assms(4) by (simp add: set_key_def)
  have r1: "run_closure set_key (d1 self) s0 =
           (Inr \<lparr>result = PNone, exception = None, state = to_dict (d1 self) s1\<rparr>,
            clear_test_namespace s1)"
    using assms(2) c1 by (simp add: run_closure_def capture_def)
  have r2: "run_closure set_key (d2 self) (clear_test_namespace s1) =
           (Inr \<lparr>result = PNone, exception = None, state = to_dict (d2 self) s2\<rparr>,
            clear_test_namespace s2)"
    using assms(5) c2 by (simp add: run_closure_def capture_def)
  have d: "ddiff \<lparr>result = PNone, exception = None, state = to_dict (d1 self) s1\<rparr>
               \<lparr>result = PNone, exception = None, state = to_dict (d2 self) s2\<rparr> = []"
    using assms(3) assms(6) by (simp add: ddiff_def error_equiv_def dict_equal_iff)
  have t: "test_set_key self s0 = (Inr (), clear_test_namespace s2)"
    by (simp add: test_set_key_def r1 r2 d)
  from r1 r2 d t show ?thesis by simp
qed

theorem test_set_key_outcomes_witness:
  "setitem (plain_dict ''rd_compare_v1'' []) ''foo'' (PStr ''bar'') [] =
     (None, [(''rd_compare_v1:foo'', PStr ''bar'')]) \<and>
   sanity_check (plain_dict ''rd_compare_v1'' []) [(''rd_compare_v1:foo'', PStr ''bar'')] \<and>
   to_dict (plain_dict ''rd_compare_v1'' []) [(''rd_compare_v1:foo'', PStr ''bar'')] =
     [(''foo'', PStr ''bar'')] \<and>
   clear_test_namespace [(''rd_compare_v1:foo'', PStr ''bar'')] = [] \<and>
   setitem (plain_dict ''rd_compare_v2'' []) ''foo'' (PStr ''bar'') [] =
     (None, [(''rd_compare_v2:foo'', PStr ''bar'')]) \<and>
   sanity_check (plain_dict ''rd_compare_v2'' []) [(''rd_compare_v2:foo'', PStr ''bar'')] \<and>
   to_dict (plain_dict ''rd_compare_v2'' []) [(''rd_compare_v2:foo'', PStr ''bar'')] =
     [(''foo'', PStr ''bar'')] \<and>
   run_closure set_key (plain_dict ''rd_compare_v2'' []) [] = (Inr foo_bar_outcome, []) \<and>
   ddiff foo_bar_outcome foo_bar_outcome = [] \<and>
   test_set_key \<lparr>d1 = plain_dict ''rd_compare_v1'' [], d2 = plain_dict ''rd_compare_v2'' []\<rparr> [] =
     (Inr (), [])"
proof -
  let ?self = "\<lparr>d1 = plain_dict ''rd_compare_v1'' [], d2 = plain_dict ''rd_compare_v2'' []\<rparr>"
  have c: "clear_test_namespace [(''rd_compare_v1:foo'', PStr ''bar'')] = []"
    "clear_test_namespace [(''rd_compare_v2:foo'', PStr ''bar'')] = []"
    by (simp_all add: harness_defs)
  have a1: "setitem (d1 ?self) ''foo'' (PStr ''bar'') [] = (None, [(''rd_compare_v1:foo'', PStr ''bar'')])"
    by (simp add: harness_defs)
  have a2: "sanity_check (d1 ?self) [(''rd_compare_v1:foo'', PStr ''bar'')]"
    by (simp add: harness_defs)
  have t1: "to_dict (d1 ?self) [(''rd_compare_v1:foo'', PStr ''bar'')] = [(''foo'', PStr ''bar'')]"
    by (simp add: harness_defs)
  have a3: "map_of (to_dict (d1 ?self) [(''rd_compare_v1:foo'', PStr ''bar'')]) = [''foo'' \<mapsto> PStr ''bar'']"
    unfolding t1 by simp
  have a4: "setitem (d2 ?self) ''foo'' (PStr ''bar'') (clear_test_namespace [(''rd_compare_v1:foo'', PStr ''bar'')]) =
      (None, [(''rd_compare_v2:foo'', PStr ''bar'')])"
    by (simp add: harness_defs)
  have a5: "sanity_check (d2 ?self) [(''rd_compare_v2:foo'', PStr ''bar'')]"
    by (simp add: harness_defs)
  have t2: "to_dict (d2 ?self) [(''rd_compare_v2:foo'', PStr ''bar'')] = [(''foo'', PStr ''bar'')]"
    by (simp add: harness_defs)
  have a6: "map_of (to_dict (d2 ?self) [(''rd_compare_v2:foo'', PStr ''bar'')]) = [''foo'' \<mapsto> PStr ''bar'']"
    unfolding t2 by simp
  note r = test_set_key_outcomes [of ?self "[]", OF a1 a2 a3 a4 a5 a6]
  from r a1 a2 t1 c a4 a5 t2 show ?thesis
    by (simp add: foo_bar_outcome_def)
qed

section \<open>Stripping the namespace from raw keys\<close>

text \<open>
  C8. The sanity check drops \<^verbatim>\<open>to_rm\<close> leading characters from every raw key before
  comparing. For a namespace without a colon that is the length of the namespace plus one;
  for a namespace with a colon it is the length of the part before the first colon plus one.
\<close>

theorem to_rm_delimiter:
  "(CHR '':'' \<notin> set (namespace rd) \<longrightarrow> to_rm rd = length (namespace rd) + 1) \<and>
   (\<forall>a b. namespace rd = a @ CHR '':'' # b \<and> CHR '':'' \<notin> set a \<longrightarrow> to_rm rd = length a + 1) \<and>
   raw_keys rd s = map (drop (to_rm rd)) (scan_iter (namespace rd @ ''*'') s) \<and>
   sanity_check rd s =
     (sort (map (drop (to_rm rd)) (scan_iter (namespace rd @ ''*'') s)) =
      sort (dict_keys (to_dict rd s)))"
proof (intro conjI allI impI)
  assume "CHR '':'' \<notin> set (namespace rd)"
  then have "takeWhile (\<lambda>x. x \<noteq> CHR '':'') (namespace rd) = namespace rd"
    by (rule takeWhile_no_sep)
  then show "to_rm rd = length (namespace rd) + 1"
    by (simp only: to_rm_def hd_split)
next
  fix a b assume "namespace rd = a @ CHR '':'' # b \<and> CHR '':'' \<notin> set a"
  then have "takeWhile (\<lambda>x. x \<noteq> CHR '':'') (namespace rd) = a"
    by (simp add: takeWhile_sep)
  then show "to_rm rd = length a + 1"
    by (simp only: to_rm_def hd_split)
next
  show "raw_keys rd s = map (drop (to_rm rd)) (scan_iter (namespace rd @ ''*'') s)"
    by (simp add: raw_keys_def)
  show "sanity_check rd s =
     (sort (map (drop (to_rm rd)) (scan_iter (namespace rd @ ''*'') s)) =
      sort (dict_keys (to_dict rd s)))"
    by (simp add: sanity_check_def raw_keys_def)
qed

theorem to_rm_delimiter_witness:
  "CHR '':'' \<notin> set (namespace (plain_dict ''rd_compare_v1'' [])) \<and>
   to_rm (plain_dict ''rd_compare_v1'' []) = 14 \<and>
   raw_keys (plain_dict ''rd_compare_v1'' []) [(''rd_compare_v1:foo'', PStr ''bar'')] = [''foo''] \<and>
   namespace (plain_dict ''ab:cd:e'' []) = ''ab'' @ CHR '':'' # ''cd:e'' \<and>
   CHR '':'' \<notin> set ''ab'' \<and>
   to_rm (plain_dict ''ab:cd:e'' []) = 3"
proof -
  have a: "CHR '':'' \<notin> set (namespace (plain_dict ''rd_compare_v1'' []))"
    by (simp add: plain_dict_def)
  have b: "namespace (plain_dict ''ab:cd:e'' []) = ''ab'' @ CHR '':'' # ''cd:e'' \<and> CHR '':'' \<notin> set ''ab''"
    by (simp add: plain_dict_def)
  have l: "length (namespace (plain_dict ''rd_compare_v1'' [])) = 13"
    by (simp add: plain_dict_def)
  have k: "scan_iter (namespace (plain_dict ''rd_compare_v1'' []) @ ''*'')
      [(''rd_compare_v1:foo'', PStr ''bar'')] = [''rd_compare_v1:foo'']"
    by (simp add: plain_dict_def scan_iter_def db_keys_def)
  note t1 = to_rm_delimiter [of "plain_dict ''rd_compare_v1'' []" "[(''rd_compare_v1:foo'', PStr ''bar'')]"]
  note t2 = to_rm_delimiter [of "plain_dict ''ab:cd:e'' []" "[]"]
  from t1 a l have r1: "to_rm (plain_dict ''rd_compare_v1'' []) = 14" by simp
  from t1 k r1 have r2: "raw_keys (plain_dict ''rd_compare_v1'' []) [(''rd_compare_v1:foo'', PStr ''bar'')] = [''foo'']"
    by simp
  note t3 = t2 [THEN conjunct2, THEN conjunct1, rule_format, of "''ab''" "''cd:e''"]
  from t3 [OF b] have r3: "to_rm (plain_dict ''ab:cd:e'' []) = 3" by simp
  show ?thesis
    by (intro conjI) (rule a r1 r2 r3 b [THEN conjunct1] b [THEN conjunct2])+
qed

section \<open>\<^verbatim>\<open>run_closure\<close>: exceptions without a message\<close>

text \<open>
  C9, as stated: for any raised exception that has no \<^verbatim>\<open>message\<close> attribute, recording it
  raises an \<^verbatim>\<open>AttributeError\<close>. Not for a raise that \<^verbatim>\<open>except Exception\<close> does not catch: a
  \<^verbatim>\<open>KeyboardInterrupt\<close> without \<^verbatim>\<open>message\<close> never reaches the read of \<^verbatim>\<open>e.message\<close>, and
  \<^verbatim>\<open>run_closure\<close> raises the \<^verbatim>\<open>KeyboardInterrupt\<close> itself, no \<^verbatim>\<open>AttributeError\<close>.
\<close>

theorem capture_needs_message_counterexample:
  "fst (get_keyerror (interrupted_dict ''rd_compare_v1'') []) = Raised KeyboardInterrupt \<and>
   message KeyboardInterrupt = None \<and>
   capture (Raised KeyboardInterrupt) = Inl (Propagated KeyboardInterrupt) \<and>
   capture (Raised KeyboardInterrupt) \<noteq> Inl AttributeError \<and>
   run_closure get_keyerror (interrupted_dict ''rd_compare_v1'') [] =
     (Inl (Propagated KeyboardInterrupt), [])"
  by (simp add: harness_defs)

text \<open>
  C9, amended: when the closure raises an instance of \<^verbatim>\<open>Exception\<close> that has no \<^verbatim>\<open>message\<close>
  attribute, recording it raises an \<^verbatim>\<open>AttributeError\<close>, which \<^verbatim>\<open>run_closure\<close> raises when the
  sanity check passes. For every raise without \<^verbatim>\<open>message\<close>, caught or not, \<^verbatim>\<open>run_closure\<close>
  returns no dict. A dict that \<^verbatim>\<open>run_closure\<close> returns after the closure raised holds an
  instance of \<^verbatim>\<open>Exception\<close> together with its \<^verbatim>\<open>message\<close>. A raise that is not an instance of
  \<^verbatim>\<open>Exception\<close> is not recorded at all: it stays pending as itself.
\<close>

theorem capture_needs_message:
  "fst (closure rd s) = Raised e \<Longrightarrow>
   (message e = None \<longrightarrow>
      (\<forall>out s'. run_closure closure rd s \<noteq> (Inr out, s')) \<and>
      (is_Exception e \<longrightarrow>
         capture (Raised e) = Inl AttributeError \<and>
         (sanity_check rd (snd (closure rd s)) \<longrightarrow>
            fst (run_closure closure rd s) = Inl AttributeError))) \<and>
   (\<forall>out s'. run_closure closure rd s = (Inr out, s') \<longrightarrow>
      is_Exception e \<and> (\<exists>m. message e = Some m \<and> exception out = Some (e, m))) \<and>
   (\<not> is_Exception e \<longrightarrow> capture (Raised e) = Inl (Propagated e))"
proof (intro conjI impI allI)
  assume r: "fst (closure rd s) = Raised e"
  {
    fix out s' assume o: "run_closure closure rd s = (Inr out, s')"
    from run_closure_Inr [OF o] r
    have c: "capture (Raised e) = Inr (result out, exception out)" by simp
    then show "is_Exception e" by (simp add: capture_Inr)
    from c show "\<exists>m. message e = Some m \<and> exception out = Some (e, m)"
      by (auto simp: capture_Inr)
  }
  {
    assume "\<not> is_Exception e"
    then show "capture (Raised e) = Inl (Propagated e)" by (simp add: capture_def)
  }
  assume nm: "message e = None"
  {
    fix out s'
    show "run_closure closure rd s \<noteq> (Inr out, s')"
    proof
      assume o: "run_closure closure rd s = (Inr out, s')"
      from run_closure_Inr [OF o] r
      have "capture (Raised e) = Inr (result out, exception out)" by simp
      with nm show False by (simp add: capture_Inr)
    qed
  }
  assume ex: "is_Exception e"
  with nm show c: "capture (Raised e) = Inl AttributeError"
    by (simp add: capture_def)
  assume ok: "sanity_check rd (snd (closure rd s))"
  show "fst (run_closure closure rd s) = Inl AttributeError"
    unfolding run_closure_ok [of rd closure s, OF ok] using r c by simp
qed

theorem capture_needs_message_witness:
  "fst (get_keyerror (messageless_dict ''rd_compare_v1'') []) = Raised (KeyError None) \<and>
   is_Exception (KeyError None) \<and> message (KeyError None) = None \<and>
   sanity_check (messageless_dict ''rd_compare_v1'')
     (snd (get_keyerror (messageless_dict ''rd_compare_v1'') [])) \<and>
   capture (Raised (KeyError None)) = Inl AttributeError \<and>
   fst (run_closure get_keyerror (messageless_dict ''rd_compare_v1'') []) = Inl AttributeError \<and>
   run_closure get_keyerror (plain_dict ''rd_compare_v1'' []) [] =
     (Inr \<lparr>result = PNone, exception = Some (KeyError (Some (PStr ''foo'')), PStr ''foo''),
           state = []\<rparr>, []) \<and>
   is_Exception (KeyError (Some (PStr ''foo''))) \<and>
   message (KeyError (Some (PStr ''foo''))) = Some (PStr ''foo'') \<and>
   fst (get_keyerror (interrupted_dict ''rd_compare_v1'') []) = Raised KeyboardInterrupt \<and>
   \<not> is_Exception KeyboardInterrupt \<and>
   capture (Raised KeyboardInterrupt) = Inl (Propagated KeyboardInterrupt)"
proof -
  have a: "is_Exception (KeyError None)" "message (KeyError None) = None"
    "is_Exception (KeyError (Some (PStr ''foo'')))"
    "message (KeyError (Some (PStr ''foo''))) = Some (PStr ''foo'')"
    by (simp_all add: KeyError_def)
  have b: "\<not> is_Exception KeyboardInterrupt"
    by (simp add: KeyboardInterrupt_def)
  have ok: "sanity_check (messageless_dict ''rd_compare_v1'')
     (snd (get_keyerror (messageless_dict ''rd_compare_v1'') []))"
    by (simp add: harness_defs)
  note t1 = capture_needs_message [of get_keyerror "messageless_dict ''rd_compare_v1''" "[]"
      "KeyError None", OF ex_messageless_call]
  note t2 = capture_needs_message [of get_keyerror "plain_dict ''rd_compare_v1'' []" "[]"
      "KeyError (Some (PStr ''foo''))", OF ex_keyerror_call]
  note t3 = capture_needs_message [of get_keyerror "interrupted_dict ''rd_compare_v1''" "[]"
      KeyboardInterrupt, OF ex_interrupted_call]
  from t1 a(1,2) have c1: "capture (Raised (KeyError None)) = Inl AttributeError" by simp
  from t1 a(1,2) ok
  have c2: "fst (run_closure get_keyerror (messageless_dict ''rd_compare_v1'') []) = Inl AttributeError"
    by simp
  from t2 ex_keyerror_run have c3: "is_Exception (KeyError (Some (PStr ''foo'')))" by simp
  from t3 b have c4: "capture (Raised KeyboardInterrupt) = Inl (Propagated KeyboardInterrupt)"
    by simp
  show ?thesis
    by (intro conjI)
      (rule ex_messageless_call a(1) a(2) ok c1 c2 ex_keyerror_run c3 a(4) ex_interrupted_call b c4)+
qed

section \<open>\<^verbatim>\<open>run_closure\<close>: the cleanup is shared\<close>

text \<open>
  C10. The cleanup in \<^verbatim>\<open>run_closure\<close> is not limited to the instance it ran: it removes every
  key that starts with \<^verbatim>\<open>rd_compare_\<close> and keeps the others, so after it no key is left
  under the namespace of any other instance whose namespace starts with \<^verbatim>\<open>rd_compare_\<close>.
\<close>

theorem cleanup_not_scoped:
  "sanity_check rd (snd (closure rd s)) \<Longrightarrow>
   prefix ''rd_compare_'' (namespace other) \<Longrightarrow>
   snd (run_closure closure rd s) =
     filter (\<lambda>kv. \<not> prefix ''rd_compare_'' (fst kv)) (snd (closure rd s)) \<and>
   scan_iter (namespace other @ ''*'') (snd (run_closure closure rd s)) = [] \<and>
   (\<forall>k. prefix (namespace other) k \<longrightarrow> k \<notin> set (db_keys (snd (run_closure closure rd s))))"
proof (intro conjI allI impI)
  assume ok: "sanity_check rd (snd (closure rd s))"
    and p: "prefix ''rd_compare_'' (namespace other)"
  have fin: "snd (run_closure closure rd s) = clear_test_namespace (snd (closure rd s))"
    by (simp add: run_closure_ok [of rd closure s, OF ok])
  show "snd (run_closure closure rd s) =
     filter (\<lambda>kv. \<not> prefix ''rd_compare_'' (fst kv)) (snd (closure rd s))"
    by (simp add: fin clear_filter)
  show "scan_iter (namespace other @ ''*'') (snd (run_closure closure rd s)) = []"
    unfolding fin using p by (rule scan_clear_empty)
  fix k assume "prefix (namespace other) k"
  with p have "prefix ''rd_compare_'' k" by (rule prefix_order.trans)
  then show "k \<notin> set (db_keys (snd (run_closure closure rd s)))"
    by (simp add: fin db_keys_clear)
qed

theorem cleanup_not_scoped_witness:
  "sanity_check (plain_dict ''rd_compare_v1'' [])
     (snd (set_key (plain_dict ''rd_compare_v1'' []) [(''rd_compare_v2:x'', PInt 1)])) \<and>
   prefix ''rd_compare_'' (namespace (plain_dict ''rd_compare_v2'' [])) \<and>
   prefix (namespace (plain_dict ''rd_compare_v2'' [])) ''rd_compare_v2:x'' \<and>
   ''rd_compare_v2:x'' \<in> set (db_keys
      (snd (set_key (plain_dict ''rd_compare_v1'' []) [(''rd_compare_v2:x'', PInt 1)]))) \<and>
   ''rd_compare_v2:x'' \<notin> set (db_keys
      (snd (run_closure set_key (plain_dict ''rd_compare_v1'' []) [(''rd_compare_v2:x'', PInt 1)])))"
proof -
  have ok: "sanity_check (plain_dict ''rd_compare_v1'' [])
     (snd (set_key (plain_dict ''rd_compare_v1'' []) [(''rd_compare_v2:x'', PInt 1)]))"
    by (simp add: harness_defs)
  have p: "prefix ''rd_compare_'' (namespace (plain_dict ''rd_compare_v2'' []))"
    by (simp add: plain_dict_def)
  have q: "prefix (namespace (plain_dict ''rd_compare_v2'' [])) ''rd_compare_v2:x''"
    by (simp add: plain_dict_def)
  have b: "''rd_compare_v2:x'' \<in> set (db_keys
      (snd (set_key (plain_dict ''rd_compare_v1'' []) [(''rd_compare_v2:x'', PInt 1)])))"
    by (simp add: harness_defs)
  show ?thesis
    using ok p q b
      cleanup_not_scoped [of "plain_dict ''rd_compare_v1'' []" set_key
        "[(''rd_compare_v2:x'', PInt 1)]" "plain_dict ''rd_compare_v2'' []"]
    by blast
qed

end
